theory Spec2Isabelle
  imports Main "HOL-Library.Word" "HOL-Library.Multiset" "HOL-Library.Char_ord"
    "HOL-Library.List_Lexorder"
begin

text \<open>
  A model of the GraphQL validation tool: the scanner \<^verbatim>\<open>collectErrors\<close> that walks a
  decoded response for \<^verbatim>\<open>"errors"\<close> and \<^verbatim>\<open>"error"\<close> fields, the boolean scanner of the
  standalone program, the runner that validates query files and sums up their results,
  and the exit status of both programs. Each function is a HOL function of the same name;
  what a function gets from the file system, the database, GraphJin or Go's library is a
  parameter.
\<close>

section \<open>Decoded JSON values\<close>

text \<open>
  \<^verbatim>\<open>json.Unmarshal\<close> into an \<^verbatim>\<open>interface{}\<close> yields \<^verbatim>\<open>nil\<close>, \<^verbatim>\<open>bool\<close>,
  \<^verbatim>\<open>float64\<close>, \<^verbatim>\<open>string\<close>, \<^verbatim>\<open>[]interface{}\<close> or \<^verbatim>\<open>map[string]interface{}\<close>.
  A \<^verbatim>\<open>float64\<close> is kept as its 64 bits: the scanners never compute with numbers.
  A Go string is a sequence of bytes, as a HOL \<^typ>\<open>string\<close> is.

  A Go map has no order of its own. The entries of a \<open>JObject\<close> are listed in the order
  in which the \<^verbatim>\<open>range\<close> statement visits them in the run at hand; the keys of a decoded
  map are distinct, and \<^verbatim>\<open>v[key]\<close> is \<^const>\<open>map_of\<close> on the entries.
\<close>

datatype json =
    JNull
  | JBool bool
  | JNumber "64 word"
  | JString string
  | JArray "json list"
  | JObject "(string \<times> json) list"

section \<open>Formatting\<close>

text \<open>
  \<^verbatim>\<open>fmt.Sprintf\<close>'s verb \<^verbatim>\<open>%d\<close> on a slice index (never negative) is its decimal
  numeral; \<^verbatim>\<open>%s\<close> on a string is the string. The verb \<^verbatim>\<open>%v\<close> on a decoded value is
  Go's library rendering; the scanner takes it as the parameter \<open>fmtV\<close>.
  \<open>digit\<close> is only applied to numbers below ten.
\<close>

definition digit :: "nat \<Rightarrow> char" where
  "digit d = ''0123456789'' ! d"

fun fmtD :: "nat \<Rightarrow> string" where
  "fmtD n = (if n < 10 then [digit n] else fmtD (n div 10) @ [digit (n mod 10)])"

declare fmtD.simps [simp del]

section \<open>The path-annotating scanner (validate command)\<close>

text \<open>
  \<^verbatim>\<open>location := path; if location == "" { location = "root" }\<close>
\<close>

definition location :: "string \<Rightarrow> string" where
  "location path = (if path = [] then ''root'' else path)"

text \<open>
  The loop \<^verbatim>\<open>for i, e := range errArray\<close> of \<^verbatim>\<open>collectErrors\<close>; \<open>errors\<close> is the
  slice behind the pointer \<^verbatim>\<open>*errors\<close>, returned updated. An element that is not a map
  is passed over; a map without a string \<^verbatim>\<open>"message"\<close> is printed with \<^verbatim>\<open>%v\<close> behind
  \<^verbatim>\<open>path\<close> (not \<^verbatim>\<open>location\<close>).
\<close>

fun errorsLoop :: "(json \<Rightarrow> string) \<Rightarrow> string \<Rightarrow> nat \<Rightarrow> json list \<Rightarrow> string list \<Rightarrow> string list" where
  "errorsLoop fmtV path i [] errors = errors"
| "errorsLoop fmtV path i (e # es) errors =
     errorsLoop fmtV path (Suc i) es
       (case e of
          JObject errMap \<Rightarrow>
            (case map_of errMap ''message'' of
               Some (JString msg) \<Rightarrow>
                 errors @ [''Error at '' @ location path @ ''['' @ fmtD i @ '']: '' @ msg]
             | _ \<Rightarrow>
                 errors @ [''Error at '' @ path @ ''['' @ fmtD i @ '']: '' @ fmtV e])
        | _ \<Rightarrow> errors)"

text \<open>The block under \<^verbatim>\<open>// Check for "errors" key (array of errors)\<close>.\<close>

definition errorsKey :: "(json \<Rightarrow> string) \<Rightarrow> (string \<times> json) list \<Rightarrow> string list \<Rightarrow> string \<Rightarrow> string list" where
  "errorsKey fmtV v errors path =
     (case map_of v ''errors'' of
        Some (JArray errArray) \<Rightarrow>
          (if length errArray > 0 then errorsLoop fmtV path 0 errArray errors else errors)
      | _ \<Rightarrow> errors)"

text \<open>The block under \<^verbatim>\<open>// Check for "error" key (single error)\<close>.\<close>

definition errorKey :: "(string \<times> json) list \<Rightarrow> string list \<Rightarrow> string \<Rightarrow> string list" where
  "errorKey v errors path =
     (case map_of v ''error'' of
        Some (JString errStr) \<Rightarrow>
          (if errStr \<noteq> [] then errors @ [''Error at '' @ location path @ '': '' @ errStr]
           else errors)
      | Some (JObject errStr) \<Rightarrow>
          (case map_of errStr ''message'' of
             Some (JString msg) \<Rightarrow> errors @ [''Error at '' @ location path @ '': '' @ msg]
           | _ \<Rightarrow> errors)
      | _ \<Rightarrow> errors)"

text \<open>
  The two computations of \<^verbatim>\<open>newPath\<close>: under a key of a map
  (\<^verbatim>\<open>newPath := key; if path != "" { newPath = path + "." + key }\<close>) and under an
  index of a slice (\<^verbatim>\<open>fmt.Sprintf("%s[%d]", path, i)\<close>, replaced by
  \<^verbatim>\<open>fmt.Sprintf("[%d]", i)\<close> when \<^verbatim>\<open>path == ""\<close>).
\<close>

definition newPath_key :: "string \<Rightarrow> string \<Rightarrow> string" where
  "newPath_key path key = (if path \<noteq> [] then path @ ''.'' @ key else key)"

definition newPath_index :: "string \<Rightarrow> nat \<Rightarrow> string" where
  "newPath_index path i =
     (if path = [] then ''['' @ fmtD i @ '']'' else path @ ''['' @ fmtD i @ '']'')"

text \<open>
  \<^verbatim>\<open>collectErrors\<close>, with its two recursive loops: \<open>collectErrors_fields\<close> is
  \<^verbatim>\<open>for key, value := range v\<close> over a map, \<open>collectErrors_items\<close> is
  \<^verbatim>\<open>for i, item := range v\<close> over a slice.
\<close>

fun collectErrors :: "(json \<Rightarrow> string) \<Rightarrow> json \<Rightarrow> string list \<Rightarrow> string \<Rightarrow> string list"
and collectErrors_fields :: "(json \<Rightarrow> string) \<Rightarrow> (string \<times> json) list \<Rightarrow> string list \<Rightarrow> string \<Rightarrow> string list"
and collectErrors_items :: "(json \<Rightarrow> string) \<Rightarrow> nat \<Rightarrow> json list \<Rightarrow> string list \<Rightarrow> string \<Rightarrow> string list"
where
  "collectErrors fmtV (JObject v) errors path =
     collectErrors_fields fmtV v (errorKey v (errorsKey fmtV v errors path) path) path"
| "collectErrors fmtV (JArray v) errors path = collectErrors_items fmtV 0 v errors path"
| "collectErrors fmtV JNull errors path = errors"
| "collectErrors fmtV (JBool b) errors path = errors"
| "collectErrors fmtV (JNumber n) errors path = errors"
| "collectErrors fmtV (JString s) errors path = errors"
| "collectErrors_fields fmtV [] errors path = errors"
| "collectErrors_fields fmtV ((key, val) # rest) errors path =
     collectErrors_fields fmtV rest (collectErrors fmtV val errors (newPath_key path key)) path"
| "collectErrors_items fmtV i [] errors path = errors"
| "collectErrors_items fmtV i (item # rest) errors path =
     collectErrors_items fmtV (Suc i) rest
       (collectErrors fmtV item errors (newPath_index path i)) path"

text \<open>
  \<^verbatim>\<open>findNestedErrors\<close>. \<^verbatim>\<open>json.Unmarshal(data, &result)\<close> with
  \<^verbatim>\<open>result interface{}\<close> is the parameter \<open>unmarshal\<close>: \<open>None\<close> when it returns an
  error, the decoded value otherwise.
\<close>

definition findNestedErrors :: "(string \<Rightarrow> json option) \<Rightarrow> (json \<Rightarrow> string) \<Rightarrow> string \<Rightarrow> string list" where
  "findNestedErrors unmarshal fmtV data =
     (if length data = 0 then []
      else case unmarshal data of
             None \<Rightarrow> []
           | Some result \<Rightarrow> collectErrors fmtV result [] [])"

section \<open>The boolean scanner (main.go)\<close>

text \<open>
  \<^verbatim>\<open>checkForErrors\<close>; the two loops return \<^verbatim>\<open>true\<close> at the first value that has
  errors and fall through to \<^verbatim>\<open>return false\<close> otherwise. \<^verbatim>\<open>errorVal != ""\<close> compares
  an interface value with a string: it is false only for the empty string.
\<close>

fun checkForErrors :: "json \<Rightarrow> bool"
and checkForErrors_fields :: "(string \<times> json) list \<Rightarrow> bool"
and checkForErrors_items :: "json list \<Rightarrow> bool"
where
  "checkForErrors (JObject v) =
     (if (case map_of v ''errors'' of Some errors \<Rightarrow> errors \<noteq> JNull | None \<Rightarrow> False) then True
      else if (case map_of v ''error'' of
                 Some errorVal \<Rightarrow> errorVal \<noteq> JNull \<and> errorVal \<noteq> JString []
               | None \<Rightarrow> False) then True
      else checkForErrors_fields v)"
| "checkForErrors (JArray v) = checkForErrors_items v"
| "checkForErrors JNull = False"
| "checkForErrors (JBool b) = False"
| "checkForErrors (JNumber n) = False"
| "checkForErrors (JString s) = False"
| "checkForErrors_fields [] = False"
| "checkForErrors_fields ((key, val) # rest) =
     (if checkForErrors val then True else checkForErrors_fields rest)"
| "checkForErrors_items [] = False"
| "checkForErrors_items (item # rest) =
     (if checkForErrors item then True else checkForErrors_items rest)"

text \<open>
  \<^verbatim>\<open>json.Unmarshal(data, &result)\<close> with \<^verbatim>\<open>result map[string]interface{}\<close>: the
  same decoder, with a map as its target. A JSON object is stored, \<^verbatim>\<open>null\<close> leaves the
  nil map (no entries), and any other value is an \<^verbatim>\<open>UnmarshalTypeError\<close>.
\<close>

definition unmarshalMap :: "(string \<Rightarrow> json option) \<Rightarrow> string \<Rightarrow> (string \<times> json) list option" where
  "unmarshalMap unmarshal data =
     (case unmarshal data of
        Some (JObject m) \<Rightarrow> Some m
      | Some JNull \<Rightarrow> Some []
      | _ \<Rightarrow> None)"

definition hasNestedErrors :: "(string \<Rightarrow> json option) \<Rightarrow> string \<Rightarrow> bool" where
  "hasNestedErrors unmarshal data =
     (if length data = 0 then False
      else case unmarshalMap unmarshal data of
             None \<Rightarrow> False
           | Some result \<Rightarrow> checkForErrors (JObject result))"

section \<open>The test runner (validate command)\<close>

record TestResult =
  Name :: string
  Path :: string
  Passed :: bool
  Errors :: "string list"
  Duration :: "64 word"

text \<open>
  The counters of a summary are Go \<^verbatim>\<open>int\<close>s that count the entries of a slice, each
  raised by one per file; they stay far below the range of \<^verbatim>\<open>int\<close> and are natural
  numbers here.
\<close>

record ValidationSummary =
  Total :: nat
  Passed :: nat
  Failed :: nat
  Results :: "TestResult list"

text \<open>GraphJin's \<^verbatim>\<open>core.Result\<close>, as far as the runner reads it.\<close>

record gj_Error =
  Message :: string

record gj_Result =
  gj_Errors :: "gj_Error list"
  gj_Data :: string

record Database =
  Type :: string
  Host :: string
  Port :: int
  DBName :: string
  User :: string
  Password :: string
  SSLMode :: string

record Config =
  Database :: Database
  Production :: bool

text \<open>
  What the runner gets from outside: the file system, the clock, the database, GraphJin
  and Go's library. An \<^verbatim>\<open>error\<close> is its message; \<open>Inl\<close> and \<open>Some\<close> carry the
  error of a call that returns one.
  \<^item> \<open>os_ReadFile\<close>: \<^verbatim>\<open>os.ReadFile(path)\<close>.
  \<^item> \<open>os_Stat\<close>: whether \<^verbatim>\<open>os.Stat(path)\<close> returns no error;
    \<open>os_IsNotExist\<close>: whether its error is one that \<^verbatim>\<open>os.IsNotExist\<close> accepts.
  \<^item> \<open>gj_GraphQL\<close>: \<^verbatim>\<open>gj.GraphQL(ctx, query, variables, nil)\<close>, the pair
    \<^verbatim>\<open>(res, err)\<close>, \<open>None\<close> for \<^verbatim>\<open>nil\<close>.
  \<^item> \<open>json_Unmarshal\<close> and \<open>fmt_V\<close>: the decoder and the verb \<^verbatim>\<open>%v\<close>.
  \<^item> \<open>filepath_Base\<close>: \<^verbatim>\<open>filepath.Base\<close>; \<open>time_Since\<close>: the milliseconds
    measured for a query file.
  \<^item> \<open>LoadConfig\<close>, \<open>sql_Open\<close>, \<open>db_Ping\<close>, \<open>NewGraphJin\<close>, \<open>findQueryFiles\<close>:
    the outcomes of reading the configuration, of opening and pinging the database, of
    creating the GraphJin instance and of walking the query directory.
\<close>

record world =
  os_ReadFile :: "string \<Rightarrow> string + string"
  os_Stat :: "string \<Rightarrow> bool"
  os_IsNotExist :: "string \<Rightarrow> bool"
  gj_GraphQL :: "string \<Rightarrow> string \<Rightarrow> gj_Result option \<times> string option"
  json_Unmarshal :: "string \<Rightarrow> json option"
  fmt_V :: "json \<Rightarrow> string"
  filepath_Base :: "string \<Rightarrow> string"
  time_Since :: "string \<Rightarrow> 64 word"
  LoadConfig :: "string \<Rightarrow> string + Config"
  sql_Open :: "Config \<Rightarrow> string option"
  db_Ping :: "Config \<Rightarrow> string option"
  NewGraphJin :: "Config \<Rightarrow> string option"
  findQueryFiles :: "string \<Rightarrow> string + string list"

text \<open>\<^verbatim>\<open>strings.TrimSuffix\<close>.\<close>

definition trimSuffix :: "string \<Rightarrow> string \<Rightarrow> string" where
  "trimSuffix s suffix =
     (if length suffix \<le> length s \<and> drop (length s - length suffix) s = suffix
      then take (length s - length suffix) s else s)"

text \<open>
  \<^verbatim>\<open>validateSingleQuery\<close>. The two early returns (query file or variables file not
  readable) leave \<^verbatim>\<open>Passed\<close> false; \<^verbatim>\<open>%v\<close> on an \<^verbatim>\<open>error\<close> prints its message. The
  lines printed under \<^verbatim>\<open>verbose\<close> are not part of the result.
\<close>

definition validateSingleQuery :: "world \<Rightarrow> string \<Rightarrow> TestResult" where
  "validateSingleQuery w queryPath =
     (let result = \<lparr>Name = filepath_Base w queryPath, Path = queryPath,
                     TestResult.Passed = False, Errors = [], Duration = 0\<rparr>
      in case os_ReadFile w queryPath of
           Inl err \<Rightarrow>
             result\<lparr>Errors := Errors result @ [''Failed to read query file: '' @ err],
                    Duration := time_Since w queryPath\<rparr>
         | Inr query \<Rightarrow>
             (let jsonFile = trimSuffix queryPath ''.graphql'' @ ''.json''
              in case (if os_Stat w jsonFile then os_ReadFile w jsonFile else Inr ''{}'') of
                   Inl err \<Rightarrow>
                     result\<lparr>Errors := Errors result @ [''Failed to read variables file: '' @ err],
                            Duration := time_Since w queryPath\<rparr>
                 | Inr variables \<Rightarrow>
                     (case gj_GraphQL w query variables of
                        (res, err) \<Rightarrow>
                          (let result = result\<lparr>Duration := time_Since w queryPath\<rparr>;
                               result =
                                 (case err of
                                    Some e \<Rightarrow> result\<lparr>Errors := Errors result @ [''Execution error: '' @ e]\<rparr>
                                  | None \<Rightarrow> result);
                               result =
                                 (case res of
                                    Some r \<Rightarrow>
                                      (if length (gj_Errors r) > 0
                                       then result\<lparr>Errors :=
                                              foldl (\<lambda>errs gjErr. errs @ [Message gjErr])
                                                (Errors result) (gj_Errors r)\<rparr>
                                       else result)
                                  | None \<Rightarrow> result);
                               result =
                                 (case res of
                                    Some r \<Rightarrow>
                                      (if length (gj_Data r) > 0
                                       then (let nestedErrors =
                                                   findNestedErrors (json_Unmarshal w) (fmt_V w) (gj_Data r)
                                             in if length nestedErrors > 0
                                                then result\<lparr>Errors := Errors result @ nestedErrors\<rparr>
                                                else result)
                                       else result)
                                  | None \<Rightarrow> result)
                           in if length (Errors result) = 0
                              then result\<lparr>TestResult.Passed := True\<rparr>
                              else result))))"

text \<open>
  \<^verbatim>\<open>validateQueries\<close>: the loop \<^verbatim>\<open>for _, qf := range queryFiles\<close>, with the
  \<^verbatim>\<open>break\<close> under \<^verbatim>\<open>failFast\<close>, and the summary it starts from.
\<close>

fun validateQueries_loop :: "world \<Rightarrow> bool \<Rightarrow> string list \<Rightarrow> ValidationSummary \<Rightarrow> ValidationSummary" where
  "validateQueries_loop w failFast [] summary = summary"
| "validateQueries_loop w failFast (qf # rest) summary =
     (let result = validateSingleQuery w qf;
          summary = summary\<lparr>Results := Results summary @ [result]\<rparr>
      in if TestResult.Passed result
         then validateQueries_loop w failFast rest
                (summary\<lparr>ValidationSummary.Passed := ValidationSummary.Passed summary + 1\<rparr>)
         else (let summary = summary\<lparr>Failed := Failed summary + 1\<rparr>
               in if failFast then summary
                  else validateQueries_loop w failFast rest summary))"

definition validateQueries :: "world \<Rightarrow> bool \<Rightarrow> string list \<Rightarrow> ValidationSummary" where
  "validateQueries w failFast queryFiles =
     validateQueries_loop w failFast queryFiles
       \<lparr>Total = length queryFiles, ValidationSummary.Passed = 0, Failed = 0, Results = []\<rparr>"

section \<open>Commands and exit status\<close>

text \<open>\<^verbatim>\<open>(c *Config) Validate\<close>: the error it returns, if any.\<close>

definition Validate :: "Config \<Rightarrow> string option" where
  "Validate c =
     (if Host (Database c) = [] then Some ''database host is required''
      else if Port (Database c) = 0 then Some ''database port is required''
      else if DBName (Database c) = [] then Some ''database name is required''
      else if User (Database c) = [] then Some ''database user is required''
      else None)"

text \<open>\<^verbatim>\<open>initializeGraphJin\<close> of the validate command: the error it returns, if any.\<close>

definition initializeGraphJin :: "world \<Rightarrow> Config \<Rightarrow> string option" where
  "initializeGraphJin w config =
     (case sql_Open w config of
        Some err \<Rightarrow> Some (''failed to connect to database: '' @ err)
      | None \<Rightarrow>
          (case db_Ping w config of
             Some err \<Rightarrow> Some (''failed to ping database: '' @ err)
           | None \<Rightarrow>
               (case NewGraphJin w config of
                  Some err \<Rightarrow> Some (''failed to create GraphJin instance: '' @ err)
                | None \<Rightarrow> None)))"

text \<open>The flags of the validate command.\<close>

record flags =
  cfgFile :: string
  queriesDir :: string
  queryFile :: string
  failFast :: bool

text \<open>
  The end of \<^verbatim>\<open>runValidate\<close>, under \<^verbatim>\<open>// Return error if any tests failed\<close>.
\<close>

definition failedError :: "ValidationSummary \<Rightarrow> string option" where
  "failedError results =
     (if Failed results > 0 then Some (fmtD (Failed results) @ '' validation(s) failed'')
      else None)"

text \<open>
  \<^verbatim>\<open>runValidate\<close>: the error it returns, \<open>None\<close> for \<^verbatim>\<open>nil\<close>. Printing the results
  does not change it.
\<close>

definition runValidate :: "world \<Rightarrow> flags \<Rightarrow> string option" where
  "runValidate w fl =
     (case LoadConfig w (cfgFile fl) of
        Inl err \<Rightarrow> Some (''failed to load config: '' @ err)
      | Inr config \<Rightarrow>
          (case Validate config of
             Some err \<Rightarrow> Some (''invalid configuration: '' @ err)
           | None \<Rightarrow>
               (case initializeGraphJin w config of
                  Some err \<Rightarrow> Some (''failed to initialize GraphJin: '' @ err)
                | None \<Rightarrow>
                    (case (if queryFile fl \<noteq> []
                           then (if os_IsNotExist w (queryFile fl)
                                 then Inl (''query file not found: '' @ queryFile fl)
                                 else Inr [queryFile fl])
                           else (case findQueryFiles w (queriesDir fl) of
                                   Inl err \<Rightarrow> Inl (''failed to find query files: '' @ err)
                                 | Inr found \<Rightarrow> Inr found)) of
                       Inl err \<Rightarrow> Some err
                     | Inr queryFiles \<Rightarrow>
                         (if length queryFiles = 0 then None
                          else failedError (validateQueries w (failFast fl) queryFiles))))))"

text \<open>
  \<^verbatim>\<open>Execute\<close>, given the error of the command that ran: \<^verbatim>\<open>os.Exit(1)\<close> on an error;
  otherwise it returns and the process ends with status 0.
\<close>

definition Execute :: "string option \<Rightarrow> nat" where
  "Execute err = (case err of Some e \<Rightarrow> 1 | None \<Rightarrow> 0)"

subsection \<open>The standalone program (main.go)\<close>

text \<open>\<^verbatim>\<open>TestResult\<close> of package \<^verbatim>\<open>main\<close>; it has one \<^verbatim>\<open>Error\<close> string.\<close>

record main_TestResult =
  main_Name :: string
  main_Path :: string
  main_Passed :: bool
  main_Error :: string
  main_Duration :: "64 word"

text \<open>
  The loop of \<^verbatim>\<open>main\<close> under \<^verbatim>\<open>// Determine exit code\<close>, started with
  \<^verbatim>\<open>exitCode := 0\<close>.
\<close>

fun exitCode_loop :: "nat \<Rightarrow> main_TestResult list \<Rightarrow> nat" where
  "exitCode_loop exitCode [] = exitCode"
| "exitCode_loop exitCode (result # rest) =
     (if \<not> main_Passed result then 1 else exitCode_loop exitCode rest)"

text \<open>\<^verbatim>\<open>log.Fatalf\<close> prints and calls \<^verbatim>\<open>os.Exit(1)\<close>.\<close>

definition log_Fatalf :: nat where
  "log_Fatalf = 1"

text \<open>
  The exit status of \<^verbatim>\<open>main\<close>, given the outcomes of \<^verbatim>\<open>loadConfig\<close>,
  \<^verbatim>\<open>initializeGraphJin\<close> and \<^verbatim>\<open>findQueryFiles\<close> and the results of
  \<^verbatim>\<open>testQueries\<close>.
\<close>

definition main_exit :: "string + 'c \<Rightarrow> string option \<Rightarrow> string + string list \<Rightarrow> (string list \<Rightarrow> main_TestResult list) \<Rightarrow> nat" where
  "main_exit loadConfig_r initializeGraphJin_r findQueryFiles_r testQueries =
     (case loadConfig_r of
        Inl err \<Rightarrow> log_Fatalf
      | Inr config \<Rightarrow>
          (case initializeGraphJin_r of
             Some err \<Rightarrow> log_Fatalf
           | None \<Rightarrow>
               (case findQueryFiles_r of
                  Inl err \<Rightarrow> log_Fatalf
                | Inr queryFiles \<Rightarrow>
                    (if length queryFiles = 0 then 0
                     else exitCode_loop 0 (testQueries queryFiles)))))"

section \<open>A world for the examples\<close>

text \<open>
  Two query files can be read and have no variables file. GraphJin rejects the query of
  \<^verbatim>\<open>bad.graphql\<close> with \<^verbatim>\<open>table not found: public.x\<close> and answers every other query
  with the payload \<^verbatim>\<open>{"users":[{"id":1}]}\<close>. The configuration is complete and the
  database answers. (The file contents stand for themselves: a query is named by its path.)
\<close>

definition demo_config :: Config where
  "demo_config =
     \<lparr>Database = \<lparr>Type = ''postgres'', Host = ''localhost'', Port = 5432, DBName = ''testdb'',
                   User = ''testuser'', Password = ''testpass'', SSLMode = ''disable''\<rparr>,
      Production = False\<rparr>"

definition demo_world :: world where
  \<open>demo_world =
     \<lparr>os_ReadFile = (\<lambda>path. Inr path),
      os_Stat = (\<lambda>path. False),
      os_IsNotExist = (\<lambda>path. False),
      gj_GraphQL = (\<lambda>query variables.
        if query = ''bad.graphql'' then (None, Some ''table not found: public.x'')
        else (Some \<lparr>gj_Errors = [], gj_Data = ''{"users":[{"id":1}]}''\<rparr>, None)),
      json_Unmarshal = (\<lambda>data.
        if data = ''{"users":[{"id":1}]}''
        then Some (JObject [(''users'', JArray [JObject [(''id'', JNumber 0x3FF0000000000000)]])])
        else None),
      fmt_V = (\<lambda>e. ''map[]''),
      filepath_Base = (\<lambda>path. path),
      time_Since = (\<lambda>path. 0),
      LoadConfig = (\<lambda>path. Inr demo_config),
      sql_Open = (\<lambda>config. None),
      db_Ping = (\<lambda>config. None),
      NewGraphJin = (\<lambda>config. None),
      findQueryFiles = (\<lambda>dir. Inr [''bad.graphql'', ''ok.graphql''])\<rparr>\<close>

definition demo_flags :: flags where
  "demo_flags = \<lparr>cfgFile = ''config.yaml'', queriesDir = ''./queries'', queryFile = [], failFast = True\<rparr>"

section \<open>One value, visited in another order\<close>

text \<open>
  A decoded map is given by its entries, whatever the order in which a run visits them.
  \<open>canon\<close> lists the entries of every map of a value by ascending key; two values with
  the same \<open>canon\<close> are one decoded value, visited in two orders.
\<close>

fun canon :: "json \<Rightarrow> json"
and canon_fields :: "(string \<times> json) list \<Rightarrow> (string \<times> json) list"
and canon_items :: "json list \<Rightarrow> json list"
where
  "canon (JObject v) = JObject (sort_key fst (canon_fields v))"
| "canon (JArray v) = JArray (canon_items v)"
| "canon JNull = JNull"
| "canon (JBool b) = JBool b"
| "canon (JNumber n) = JNumber n"
| "canon (JString s) = JString s"
| "canon_fields [] = []"
| "canon_fields ((key, val) # rest) = (key, canon val) # canon_fields rest"
| "canon_items [] = []"
| "canon_items (item # rest) = canon item # canon_items rest"

text \<open>The \<^verbatim>\<open>ok\<close> of the type assertion \<^verbatim>\<open>e.(map[string]interface{})\<close>.\<close>

definition isMap :: "json \<Rightarrow> bool" where
  "isMap e = (case e of JObject m \<Rightarrow> True | _ \<Rightarrow> False)"

section \<open>The scanner appends to its accumulator\<close>

lemma errorsLoop_append:
  "errorsLoop fmtV path i es errors = errors @ errorsLoop fmtV path i es []"
proof (induction es arbitrary: i errors)
  case Nil
  show ?case by simp
next
  case (Cons e es)
  have step: "errorsLoop fmtV path (Suc i) es (acc @ extra) = acc @ errorsLoop fmtV path (Suc i) es extra"
    for acc extra
    using Cons.IH [of "Suc i" "acc @ extra"] Cons.IH [of "Suc i" extra] by simp
  show ?case
    using step [of errors] Cons.IH [of "Suc i" errors]
    by (simp split: json.split option.split)
qed

lemma errorsKey_append:
  "errorsKey fmtV v errors path = errors @ errorsKey fmtV v [] path"
  using errorsLoop_append [of fmtV path 0 _ errors]
  by (simp add: errorsKey_def split: option.split json.split)

lemma errorKey_append:
  "errorKey v errors path = errors @ errorKey v [] path"
  by (simp add: errorKey_def split: option.split json.split)

lemma collectErrors_append_all:
  fixes errors :: "string list"
  shows "\<forall>e. collectErrors fmtV v e path = e @ collectErrors fmtV v [] path"
  and "\<forall>e. collectErrors_fields fmtV kvs e path = e @ collectErrors_fields fmtV kvs [] path"
  and "\<forall>e. collectErrors_items fmtV i xs e path = e @ collectErrors_items fmtV i xs [] path"
proof (induction fmtV v errors path and fmtV kvs errors path and fmtV i xs errors path
    rule: collectErrors_collectErrors_fields_collectErrors_items.induct)
  case (1 fmtV v errors path)
  show ?case
  proof
    fix e
    have "collectErrors fmtV (JObject v) e path
        = errorKey v (errorsKey fmtV v e path) path @ collectErrors_fields fmtV v [] path"
      using 1 [THEN spec, of "errorKey v (errorsKey fmtV v e path) path"] by simp
    also have "\<dots> = e @ errorKey v (errorsKey fmtV v [] path) path @ collectErrors_fields fmtV v [] path"
      using errorKey_append [of v "errorsKey fmtV v e path" path]
        errorKey_append [of v "errorsKey fmtV v [] path" path]
        errorsKey_append [of fmtV v e path] by simp
    also have "\<dots> = e @ collectErrors fmtV (JObject v) [] path"
      using 1 [THEN spec, of "errorKey v (errorsKey fmtV v [] path) path"] by simp
    finally show "collectErrors fmtV (JObject v) e path = e @ collectErrors fmtV (JObject v) [] path" .
  qed
next
  case (2 fmtV v errors path)
  show ?case unfolding collectErrors.simps by (rule 2)
next
  case (8 fmtV key val rest errors path)
  show ?case
  proof
    fix e
    show "collectErrors_fields fmtV ((key, val) # rest) e path =
          e @ collectErrors_fields fmtV ((key, val) # rest) [] path"
      using 8 by (metis append.assoc collectErrors_fields.simps(2))
  qed
next
  case (10 fmtV i item rest errors path)
  show ?case
  proof
    fix e
    show "collectErrors_items fmtV i (item # rest) e path =
          e @ collectErrors_items fmtV i (item # rest) [] path"
      using 10 by (metis append.assoc collectErrors_items.simps(2))
  qed
qed simp_all

lemma collectErrors_append:
  "collectErrors fmtV v errors path = errors @ collectErrors fmtV v [] path"
  using collectErrors_append_all(1) [of fmtV v path] by blast

lemma collectErrors_fields_append:
  "collectErrors_fields fmtV kvs errors path = errors @ collectErrors_fields fmtV kvs [] path"
  using collectErrors_append_all(2) [of fmtV kvs path] by blast

lemma collectErrors_items_append:
  "collectErrors_items fmtV i xs errors path = errors @ collectErrors_items fmtV i xs [] path"
  using collectErrors_append_all(3) [of fmtV i xs path] by blast

lemma collectErrors_JObject_parts:
  "collectErrors fmtV (JObject v) errors path =
     errorsKey fmtV v errors path @ errorKey v [] path @ collectErrors_fields fmtV v [] path"
  using collectErrors_fields_append [of fmtV v "errorKey v (errorsKey fmtV v errors path) path" path]
    errorKey_append [of v "errorsKey fmtV v errors path" path]
  by simp

section \<open>Findings of the "errors" rule\<close>

lemma errorsLoop_message_finding:
  "j < length es \<Longrightarrow> es ! j = JObject errMap \<Longrightarrow>
   map_of errMap ''message'' = Some (JString msg) \<Longrightarrow>
   (''Error at '' @ location path @ ''['' @ fmtD (i + j) @ '']: '' @ msg)
     \<in> set (errorsLoop fmtV path i es errors)"
proof (induction es arbitrary: i j errors)
  case Nil
  then show ?case by simp
next
  case (Cons e es)
  show ?case
  proof (cases j)
    case 0
    with Cons.prems have e: "e = JObject errMap" by simp
    have "errorsLoop fmtV path i (e # es) errors =
          errorsLoop fmtV path (Suc i) es
            (errors @ [''Error at '' @ location path @ ''['' @ fmtD i @ '']: '' @ msg])"
      using Cons.prems(3) by (simp add: e)
    also have "\<dots> = (errors @ [''Error at '' @ location path @ ''['' @ fmtD i @ '']: '' @ msg])
          @ errorsLoop fmtV path (Suc i) es []"
      by (rule errorsLoop_append)
    finally show ?thesis using 0 by simp
  next
    case (Suc j')
    with Cons.prems have "j' < length es" "es ! j' = JObject errMap" by simp_all
    from Cons.IH [OF this Cons.prems(3), of "Suc i"] show ?thesis
      using Suc by simp
  qed
qed

lemma errorsLoop_other_finding:
  "j < length es \<Longrightarrow> es ! j = JObject errMap \<Longrightarrow>
   \<forall>msg. map_of errMap ''message'' \<noteq> Some (JString msg) \<Longrightarrow>
   (''Error at '' @ path @ ''['' @ fmtD (i + j) @ '']: '' @ fmtV (es ! j))
     \<in> set (errorsLoop fmtV path i es errors)"
proof (induction es arbitrary: i j errors)
  case Nil
  then show ?case by simp
next
  case (Cons e es)
  show ?case
  proof (cases j)
    case 0
    with Cons.prems have e: "e = JObject errMap" by simp
    have "errorsLoop fmtV path i (e # es) errors =
          errorsLoop fmtV path (Suc i) es
            (errors @ [''Error at '' @ path @ ''['' @ fmtD i @ '']: '' @ fmtV e])"
      using Cons.prems(3) by (simp add: e split: option.split json.split)
    also have "\<dots> = (errors @ [''Error at '' @ path @ ''['' @ fmtD i @ '']: '' @ fmtV e])
          @ errorsLoop fmtV path (Suc i) es []"
      by (rule errorsLoop_append)
    finally show ?thesis using 0 by simp
  next
    case (Suc j')
    with Cons.prems have "j' < length es" "es ! j' = JObject errMap" by simp_all
    from Cons.IH [OF this Cons.prems(3), of "Suc i"] show ?thesis
      using Suc by simp
  qed
qed

lemma errorsLoop_length:
  "length (errorsLoop fmtV path i es errors) = length errors + length (filter isMap es)"
proof (induction es arbitrary: i errors)
  case Nil
  show ?case by simp
next
  case (Cons e es)
  show ?case
    by (simp add: Cons.IH isMap_def split: json.split option.split)
qed

section \<open>The model on the examples of the specification\<close>

lemma example_root_naming:
  "collectErrors fmtV (JObject [(''error'', JString ''bad'')]) [] [] = [''Error at root: bad'']"
  by (simp add: errorsKey_def errorKey_def location_def newPath_key_def)

lemma example_nested_path:
  "collectErrors fmtV
     (JObject [(''users'', JArray [JObject [(''posts'', JObject [(''error'', JString ''oops'')])]])])
     [] []
   = [''Error at users[0].posts: oops'']"
  by (simp add: errorsKey_def errorKey_def location_def newPath_key_def newPath_index_def
      fmtD.simps digit_def)

lemma example_errors_not_a_list:
  "collectErrors fmtV (JObject [(''errors'', JString ''not-a-list'')]) [] [] = []"
  by (simp add: errorsKey_def errorKey_def newPath_key_def)

lemma example_engine_failure:
  "validateSingleQuery demo_world ''bad.graphql''
   = \<lparr>Name = ''bad.graphql'', Path = ''bad.graphql'', TestResult.Passed = False,
      Errors = [''Execution error: table not found: public.x''], Duration = 0\<rparr>"
  by (simp add: validateSingleQuery_def demo_world_def trimSuffix_def)

lemma example_clean_payload:
  "validateSingleQuery demo_world ''ok.graphql''
   = \<lparr>Name = ''ok.graphql'', Path = ''ok.graphql'', TestResult.Passed = True,
      Errors = [], Duration = 0\<rparr>"
  by (simp add: validateSingleQuery_def demo_world_def trimSuffix_def findNestedErrors_def
      errorsKey_def errorKey_def newPath_key_def newPath_index_def)

section \<open>Claims about the scanner\<close>

text \<open>
  C1. In a map whose key \<^verbatim>\<open>"errors"\<close> holds a sequence, every element at index \<open>i\<close>
  that is a map with a string \<^verbatim>\<open>"message"\<close> gives the finding
  \<^verbatim>\<open>Error at <path>[<i>]: <message>\<close>, with \<^verbatim>\<open>root\<close> for the empty path; and the
  scan of \<^verbatim>\<open>{"errors": [{"message": "x"}, {"message": "y"}]}\<close> from the top is
  \<^verbatim>\<open>Error at root[0]: x\<close>, \<^verbatim>\<open>Error at root[1]: y\<close>, in this order.
\<close>

theorem C1_errors_message_findings:
  "(map_of v ''errors'' = Some (JArray errArray) \<and> i < length errArray \<and>
    errArray ! i = JObject errMap \<and> map_of errMap ''message'' = Some (JString msg)
    \<longrightarrow> (''Error at '' @ (if path = [] then ''root'' else path) @ ''['' @ fmtD i @ '']: '' @ msg)
          \<in> set (collectErrors fmtV (JObject v) errors path))
   \<and> collectErrors fmtV
         (JObject [(''errors'', JArray [JObject [(''message'', JString ''x'')],
                                        JObject [(''message'', JString ''y'')]])]) [] []
       = [''Error at root[0]: x'', ''Error at root[1]: y'']"
proof (intro conjI impI)
  assume h: "map_of v ''errors'' = Some (JArray errArray) \<and> i < length errArray \<and>
    errArray ! i = JObject errMap \<and> map_of errMap ''message'' = Some (JString msg)"
  then have "errorsKey fmtV v errors path = errorsLoop fmtV path 0 errArray errors"
    by (auto simp: errorsKey_def)
  moreover have "(''Error at '' @ location path @ ''['' @ fmtD (0 + i) @ '']: '' @ msg)
      \<in> set (errorsLoop fmtV path 0 errArray errors)"
    using h errorsLoop_message_finding [of i errArray errMap msg path 0 fmtV errors] by simp
  ultimately have "(''Error at '' @ location path @ ''['' @ fmtD i @ '']: '' @ msg)
      \<in> set (errorsKey fmtV v errors path)"
    by simp
  then show "(''Error at '' @ (if path = [] then ''root'' else path) @ ''['' @ fmtD i @ '']: '' @ msg)
      \<in> set (collectErrors fmtV (JObject v) errors path)"
    unfolding collectErrors_JObject_parts [of fmtV v errors path] location_def by simp
next
  show "collectErrors fmtV
         (JObject [(''errors'', JArray [JObject [(''message'', JString ''x'')],
                                        JObject [(''message'', JString ''y'')]])]) [] []
       = [''Error at root[0]: x'', ''Error at root[1]: y'']"
    by (simp add: errorsKey_def errorKey_def location_def newPath_key_def newPath_index_def
        fmtD.simps digit_def)
qed

theorem C1_errors_message_findings_witness:
  "map_of [(''errors'', JArray [JObject [(''code'', JNull)], JObject [(''message'', JString ''denied'')]])]
      ''errors''
     = Some (JArray [JObject [(''code'', JNull)], JObject [(''message'', JString ''denied'')]])
   \<and> (1::nat) < length [JObject [(''code'', JNull)], JObject [(''message'', JString ''denied'')]]
   \<and> [JObject [(''code'', JNull)], JObject [(''message'', JString ''denied'')]] ! 1
       = JObject [(''message'', JString ''denied'')]
   \<and> map_of [(''message'', JString ''denied'')] ''message'' = Some (JString ''denied'')
   \<and> ''Error at users[1]: denied''
       \<in> set (collectErrors (\<lambda>e. ''map[code:<nil>]'')
            (JObject [(''errors'', JArray [JObject [(''code'', JNull)],
                                           JObject [(''message'', JString ''denied'')]])])
            [] ''users'')"
  using C1_errors_message_findings
    [of "[(''errors'', JArray [JObject [(''code'', JNull)], JObject [(''message'', JString ''denied'')]])]"
        "[JObject [(''code'', JNull)], JObject [(''message'', JString ''denied'')]]"
        1 "[(''message'', JString ''denied'')]" "''denied''" "''users''"
        "\<lambda>e. ''map[code:<nil>]''" "[]"]
  by (simp add: fmtD.simps digit_def)

text \<open>
  C2, as stated, fails: an element of the \<^verbatim>\<open>"errors"\<close> sequence that is not a map gives no
  finding. The scan of \<^verbatim>\<open>{"errors": ["boom"]}\<close> from the top is empty.
\<close>

theorem C2_non_map_element_counterexample:
  "collectErrors (\<lambda>e. ''boom'') (JObject [(''errors'', JArray [JString ''boom''])]) [] [] = []"
  by (simp add: errorsKey_def errorKey_def newPath_key_def newPath_index_def)

text \<open>
  C2, amended. In a map whose key \<^verbatim>\<open>"errors"\<close> holds a sequence, every element at index
  \<open>i\<close> that is a map without a string \<^verbatim>\<open>"message"\<close> gives, under a path that is not
  empty, the finding \<^verbatim>\<open>Error at <path>[<i>]: <rendering of the element>\<close>; and the
  \<^verbatim>\<open>"errors"\<close> rule adds one finding for each element that is a map, none for any other
  element.
\<close>

theorem C2_errors_other_map_findings:
  "(map_of v ''errors'' = Some (JArray errArray) \<and> i < length errArray \<and>
    errArray ! i = JObject errMap \<and> (\<forall>msg. map_of errMap ''message'' \<noteq> Some (JString msg)) \<and>
    path \<noteq> []
    \<longrightarrow> (''Error at '' @ path @ ''['' @ fmtD i @ '']: '' @ fmtV (errArray ! i))
          \<in> set (collectErrors fmtV (JObject v) errors path))
   \<and> (map_of v ''errors'' = Some (JArray errArray)
    \<longrightarrow> length (errorsKey fmtV v errors path) = length errors + length (filter isMap errArray))"
proof (intro conjI impI)
  assume h: "map_of v ''errors'' = Some (JArray errArray) \<and> i < length errArray \<and>
    errArray ! i = JObject errMap \<and> (\<forall>msg. map_of errMap ''message'' \<noteq> Some (JString msg)) \<and>
    path \<noteq> []"
  then have "errorsKey fmtV v errors path = errorsLoop fmtV path 0 errArray errors"
    by (auto simp: errorsKey_def)
  moreover have "(''Error at '' @ path @ ''['' @ fmtD (0 + i) @ '']: '' @ fmtV (errArray ! i))
      \<in> set (errorsLoop fmtV path 0 errArray errors)"
    using h errorsLoop_other_finding [of i errArray errMap path 0 fmtV errors] by simp
  ultimately have "(''Error at '' @ path @ ''['' @ fmtD i @ '']: '' @ fmtV (errArray ! i))
      \<in> set (errorsKey fmtV v errors path)"
    by simp
  then show "(''Error at '' @ path @ ''['' @ fmtD i @ '']: '' @ fmtV (errArray ! i))
      \<in> set (collectErrors fmtV (JObject v) errors path)"
    unfolding collectErrors_JObject_parts [of fmtV v errors path] by simp
next
  assume "map_of v ''errors'' = Some (JArray errArray)"
  then show "length (errorsKey fmtV v errors path) = length errors + length (filter isMap errArray)"
    by (simp add: errorsKey_def errorsLoop_length del: errorsLoop.simps)
qed

theorem C2_errors_other_map_findings_witness:
  "map_of [(''errors'', JArray [JString ''boom'', JObject [(''code'', JNull)]])] ''errors''
     = Some (JArray [JString ''boom'', JObject [(''code'', JNull)]])
   \<and> (1::nat) < length [JString ''boom'', JObject [(''code'', JNull)]]
   \<and> [JString ''boom'', JObject [(''code'', JNull)]] ! 1 = JObject [(''code'', JNull)]
   \<and> map_of [(''code'', JNull)] ''message'' = None
   \<and> ''users'' \<noteq> []
   \<and> ''Error at users[1]: map[code:<nil>]''
       \<in> set (collectErrors (\<lambda>e. ''map[code:<nil>]'')
            (JObject [(''errors'', JArray [JString ''boom'', JObject [(''code'', JNull)]])])
            [] ''users'')
   \<and> length (errorsKey (\<lambda>e. ''map[code:<nil>]'')
         [(''errors'', JArray [JString ''boom'', JObject [(''code'', JNull)]])] [] ''users'')
       = length ([] :: string list)
         + length (filter isMap [JString ''boom'', JObject [(''code'', JNull)]])"
  using C2_errors_other_map_findings
    [of "[(''errors'', JArray [JString ''boom'', JObject [(''code'', JNull)]])]"
        "[JString ''boom'', JObject [(''code'', JNull)]]"
        1 "[(''code'', JNull)]" "''users''" "\<lambda>e. ''map[code:<nil>]''" "[]"]
  by (simp add: fmtD.simps digit_def)

text \<open>
  Under the empty path the second branch prints \<^verbatim>\<open>path\<close> itself, where the first prints
  \<^verbatim>\<open>root\<close>: the scan of \<^verbatim>\<open>{"errors": [{}]}\<close> from the top.
\<close>

lemma errors_rule_at_top_prints_empty_path:
  "collectErrors (\<lambda>e. ''map[]'') (JObject [(''errors'', JArray [JObject []])]) [] []
     = [''Error at [0]: map[]'']"
  by (simp add: errorsKey_def errorKey_def newPath_key_def newPath_index_def fmtD.simps digit_def)

lemma collectErrors_fields_split:
  "collectErrors_fields fmtV (xs @ ys) errors path =
     collectErrors_fields fmtV ys (collectErrors_fields fmtV xs errors path) path"
proof (induction xs arbitrary: errors)
  case Nil
  show ?case by simp
next
  case (Cons kv xs)
  obtain key val where kv: "kv = (key, val)" by (cases kv)
  show ?case by (simp add: kv Cons.IH)
qed

lemma map_of_skip_entry:
  "k' \<noteq> k \<Longrightarrow> map_of (xs @ (k, val) # ys) k' = map_of (xs @ ys) k'"
  by (simp add: map_add_def split: option.split)

lemma map_of_distinct_entry:
  "distinct (map fst (xs @ (k, val) # ys)) \<Longrightarrow>
   map_of (xs @ (k, val) # ys) k = Some val \<and> map_of (xs @ ys) k = None"
proof -
  assume d: "distinct (map fst (xs @ (k, val) # ys))"
  then have "k \<notin> fst ` set xs" and "k \<notin> fst ` set ys" by auto
  then have "map_of xs k = None" and "map_of ys k = None"
    by (simp_all add: map_of_eq_None_iff)
  then show ?thesis by (simp add: map_add_def)
qed

lemma error_key_falsy:
  assumes d: "distinct (map fst (xs @ (''error'', val) # ys))"
    and falsy: "val = JString [] \<or> val = JNull"
  shows "collectErrors fmtV (JObject (xs @ (''error'', val) # ys)) errors path
       = collectErrors fmtV (JObject (xs @ ys)) errors path"
proof -
  let ?with = "xs @ (''error'', val) # ys" and ?without = "xs @ ys"
  from d have here: "map_of ?with ''error'' = Some val" and gone: "map_of ?without ''error'' = None"
    using map_of_distinct_entry [of xs "''error''" val ys] by simp_all
  have "map_of ?with ''errors'' = map_of ?without ''errors''"
    by (intro map_of_skip_entry) simp
  then have "errorsKey fmtV ?with errors path = errorsKey fmtV ?without errors path"
    by (simp only: errorsKey_def)
  moreover have "errorKey ?with e path = e" for e
    using falsy by (auto simp add: errorKey_def here simp del: map_of_append)
  moreover have "errorKey ?without e path = e" for e
    by (simp add: errorKey_def gone del: map_of_append)
  moreover have "collectErrors fmtV val e p = e" for e p
    using falsy by auto
  then have "collectErrors_fields fmtV ?with e path = collectErrors_fields fmtV ?without e path" for e
    by (simp add: collectErrors_fields_split)
  ultimately show ?thesis
    by (simp only: collectErrors.simps)
qed

lemma errors_key_empty:
  assumes d: "distinct (map fst (xs @ (''errors'', JArray []) # ys))"
  shows "collectErrors fmtV (JObject (xs @ (''errors'', JArray []) # ys)) errors path
       = collectErrors fmtV (JObject (xs @ ys)) errors path"
proof -
  let ?with = "xs @ (''errors'', JArray []) # ys" and ?without = "xs @ ys"
  from d have here: "map_of ?with ''errors'' = Some (JArray [])"
    and gone: "map_of ?without ''errors'' = None"
    using map_of_distinct_entry [of xs "''errors''" "JArray []" ys] by simp_all
  have "map_of ?with ''error'' = map_of ?without ''error''"
    by (intro map_of_skip_entry) simp
  then have "errorKey ?with e path = errorKey ?without e path" for e
    by (simp only: errorKey_def)
  moreover have "errorsKey fmtV ?with errors path = errors"
    by (simp add: errorsKey_def here del: map_of_append)
  moreover have "errorsKey fmtV ?without errors path = errors"
    by (simp add: errorsKey_def gone del: map_of_append)
  moreover have "collectErrors_fields fmtV ?with e path = collectErrors_fields fmtV ?without e path" for e
    by (simp add: collectErrors_fields_split)
  ultimately show ?thesis
    by (simp only: collectErrors.simps)
qed

text \<open>
  C3. An \<^verbatim>\<open>"error"\<close> that is the empty string or \<^verbatim>\<open>null\<close>, and an \<^verbatim>\<open>"errors"\<close> that
  is the empty sequence, add no finding: the map has the findings it has without the key.
  The scans of \<^verbatim>\<open>{"error": ""}\<close>, \<^verbatim>\<open>{"error": null}\<close> and \<^verbatim>\<open>{"errors": []}\<close> from the
  top are empty.
\<close>

theorem C3_falsy_indicators_no_finding:
  "(distinct (map fst (xs @ (k, val) # ys)) \<and>
    (k = ''error'' \<and> (val = JString [] \<or> val = JNull) \<or> k = ''errors'' \<and> val = JArray [])
    \<longrightarrow> collectErrors fmtV (JObject (xs @ (k, val) # ys)) errors path
        = collectErrors fmtV (JObject (xs @ ys)) errors path)
   \<and> collectErrors fmtV (JObject [(''error'', JString [])]) [] [] = []
   \<and> collectErrors fmtV (JObject [(''error'', JNull)]) [] [] = []
   \<and> collectErrors fmtV (JObject [(''errors'', JArray [])]) [] [] = []"
proof (intro conjI impI)
  assume h: "distinct (map fst (xs @ (k, val) # ys)) \<and>
    (k = ''error'' \<and> (val = JString [] \<or> val = JNull) \<or> k = ''errors'' \<and> val = JArray [])"
  then consider (error) "k = ''error''" "val = JString [] \<or> val = JNull"
    | (errors) "k = ''errors''" "val = JArray []" by blast
  then show "collectErrors fmtV (JObject (xs @ (k, val) # ys)) errors path
        = collectErrors fmtV (JObject (xs @ ys)) errors path"
  proof cases
    case error
    with h have "distinct (map fst (xs @ (''error'', val) # ys))" by simp
    from error_key_falsy [OF this error(2)] show ?thesis by (simp only: error(1))
  next
    case errors
    with h have "distinct (map fst (xs @ (''errors'', JArray []) # ys))" by simp
    from errors_key_empty [OF this] show ?thesis by (simp only: errors)
  qed
qed (simp_all add: errorsKey_def errorKey_def newPath_key_def)

theorem C3_falsy_indicators_no_finding_witness:
  "distinct (map fst ([(''data'', JObject [(''error'', JString ''oops'')])] @ (''error'', JNull) # []))
   \<and> (JNull = JString [] \<or> JNull = JNull)
   \<and> collectErrors (\<lambda>e. ''map[]'')
         (JObject ([(''data'', JObject [(''error'', JString ''oops'')])] @ (''error'', JNull) # []))
         [] []
       = collectErrors (\<lambda>e. ''map[]'')
           (JObject ([(''data'', JObject [(''error'', JString ''oops'')])] @ [])) [] []
   \<and> collectErrors (\<lambda>e. ''map[]'')
         (JObject ([(''data'', JObject [(''error'', JString ''oops'')])] @ [])) [] []
       = [''Error at data: oops'']"
  using C3_falsy_indicators_no_finding
    [of "[(''data'', JObject [(''error'', JString ''oops'')])]" "''error''" JNull "[]"
        "\<lambda>e. ''map[]''" "[]" "[]"]
  by (simp add: errorsKey_def errorKey_def newPath_key_def location_def)

section \<open>Claims about the runner\<close>

text \<open>
  C5. For every query file and whatever the file system, GraphJin and the decoder return,
  the result of \<^verbatim>\<open>validateSingleQuery\<close> has \<^verbatim>\<open>Passed\<close> true exactly when its
  \<^verbatim>\<open>Errors\<close> are empty.
\<close>

theorem C5_passed_iff_no_errors:
  "TestResult.Passed (validateSingleQuery w queryPath) = (Errors (validateSingleQuery w queryPath) = [])"
  by (simp add: validateSingleQuery_def Let_def split: sum.split prod.split option.split)

lemma validateQueries_loop_counts:
  "\<exists>new.
     Results (validateQueries_loop w ff qfs s) = Results s @ new \<and>
     ValidationSummary.Passed (validateQueries_loop w ff qfs s)
       = ValidationSummary.Passed s + length (filter TestResult.Passed new) \<and>
     Failed (validateQueries_loop w ff qfs s)
       = Failed s + length (filter (\<lambda>r. \<not> TestResult.Passed r) new) \<and>
     Total (validateQueries_loop w ff qfs s) = Total s \<and>
     length new \<le> length qfs \<and>
     (ff \<and> filter (\<lambda>r. \<not> TestResult.Passed r) new \<noteq> [] \<or> length new = length qfs)"
proof (induction qfs arbitrary: s)
  case Nil
  show ?case by simp
next
  case (Cons qf rest)
  let ?r = "validateSingleQuery w qf"
  let ?s1 = "s\<lparr>Results := Results s @ [?r]\<rparr>"
  show ?case
  proof (cases "TestResult.Passed ?r")
    case True
    let ?s2 = "?s1\<lparr>ValidationSummary.Passed := ValidationSummary.Passed ?s1 + 1\<rparr>"
    from Cons.IH [of ?s2] obtain new where
      "Results (validateQueries_loop w ff rest ?s2) = Results ?s2 @ new"
      "ValidationSummary.Passed (validateQueries_loop w ff rest ?s2)
         = ValidationSummary.Passed ?s2 + length (filter TestResult.Passed new)"
      "Failed (validateQueries_loop w ff rest ?s2)
         = Failed ?s2 + length (filter (\<lambda>r. \<not> TestResult.Passed r) new)"
      "Total (validateQueries_loop w ff rest ?s2) = Total ?s2"
      "length new \<le> length rest"
      "ff \<and> filter (\<lambda>r. \<not> TestResult.Passed r) new \<noteq> [] \<or> length new = length rest"
      by blast
    then show ?thesis
      using True by (intro exI [of _ "?r # new"]) (simp add: Let_def)
  next
    case False
    let ?s2 = "?s1\<lparr>Failed := Failed ?s1 + 1\<rparr>"
    show ?thesis
    proof (cases ff)
      case True
      then show ?thesis
        using False by (intro exI [of _ "[?r]"]) (simp add: Let_def)
    next
      case notff: False
      from Cons.IH [of ?s2] obtain new where
        "Results (validateQueries_loop w ff rest ?s2) = Results ?s2 @ new"
        "ValidationSummary.Passed (validateQueries_loop w ff rest ?s2)
           = ValidationSummary.Passed ?s2 + length (filter TestResult.Passed new)"
        "Failed (validateQueries_loop w ff rest ?s2)
           = Failed ?s2 + length (filter (\<lambda>r. \<not> TestResult.Passed r) new)"
        "Total (validateQueries_loop w ff rest ?s2) = Total ?s2"
        "length new \<le> length rest"
        "ff \<and> filter (\<lambda>r. \<not> TestResult.Passed r) new \<noteq> [] \<or> length new = length rest"
        by blast
      then show ?thesis
        using False notff by (intro exI [of _ "?r # new"]) (simp add: Let_def)
    qed
  qed
qed

lemma validateQueries_counts:
  "ValidationSummary.Passed (validateQueries w ff qfs)
     = length (filter TestResult.Passed (Results (validateQueries w ff qfs)))"
  "Failed (validateQueries w ff qfs)
     = length (filter (\<lambda>r. \<not> TestResult.Passed r) (Results (validateQueries w ff qfs)))"
  "Total (validateQueries w ff qfs) = length qfs"
  "length (Results (validateQueries w ff qfs)) \<le> length qfs"
  "ff \<and> Failed (validateQueries w ff qfs) \<noteq> 0 \<or> length (Results (validateQueries w ff qfs)) = length qfs"
  using validateQueries_loop_counts
    [of w ff qfs "\<lparr>Total = length qfs, ValidationSummary.Passed = 0, Failed = 0, Results = []\<rparr>"]
  by (auto simp: validateQueries_def)

lemma length_filter_passed_failed:
  "length (filter TestResult.Passed rs) + length (filter (\<lambda>r. \<not> TestResult.Passed r) rs) = length rs"
  using sum_length_filter_compl [of TestResult.Passed rs] by simp

text \<open>
  C10. For every list of query files, whether or not fail-fast ends the loop early, the
  counters of the summary of \<^verbatim>\<open>validateQueries\<close> are those of its \<^verbatim>\<open>Results\<close>:
  \<^verbatim>\<open>Passed\<close> counts the results that passed, \<^verbatim>\<open>Failed\<close> those that did not, and their
  sum is the number of results.
\<close>

theorem C10_counters_match_results:
  "ValidationSummary.Passed (validateQueries w ff queryFiles)
     = length (filter TestResult.Passed (Results (validateQueries w ff queryFiles)))
   \<and> Failed (validateQueries w ff queryFiles)
     = length (filter (\<lambda>r. \<not> TestResult.Passed r) (Results (validateQueries w ff queryFiles)))
   \<and> ValidationSummary.Passed (validateQueries w ff queryFiles) + Failed (validateQueries w ff queryFiles)
     = length (Results (validateQueries w ff queryFiles))"
  by (simp add: validateQueries_counts(1,2) length_filter_passed_failed)

text \<open>
  C4, as stated, fails: \<^verbatim>\<open>Total\<close> is the number of query files, also when fail-fast ends
  the loop before all of them have a result. With fail-fast on and a first file that fails,
  two files give \<^verbatim>\<open>Total\<close> 2 and one result.
\<close>

theorem C4_fail_fast_total_counterexample:
  "Total (validateQueries demo_world True [''bad.graphql'', ''ok.graphql'']) = 2
   \<and> length (Results (validateQueries demo_world True [''bad.graphql'', ''ok.graphql''])) = 1
   \<and> ValidationSummary.Passed (validateQueries demo_world True [''bad.graphql'', ''ok.graphql''])
       + Failed (validateQueries demo_world True [''bad.graphql'', ''ok.graphql'']) = 1"
  by (simp add: validateQueries_def validateSingleQuery_def demo_world_def trimSuffix_def)

text \<open>
  C4, amended. For every summary of \<^verbatim>\<open>validateQueries\<close>, \<^verbatim>\<open>Passed + Failed\<close> is the
  number of results, which is at most \<^verbatim>\<open>Total\<close>, the number of query files; the two are
  equal when fail-fast is off or no result failed.
\<close>

theorem C4_summary_invariant:
  "ValidationSummary.Passed (validateQueries w ff queryFiles) + Failed (validateQueries w ff queryFiles)
     = length (Results (validateQueries w ff queryFiles))
   \<and> length (Results (validateQueries w ff queryFiles)) \<le> Total (validateQueries w ff queryFiles)
   \<and> Total (validateQueries w ff queryFiles) = length queryFiles
   \<and> (\<not> ff \<or> Failed (validateQueries w ff queryFiles) = 0
      \<longrightarrow> Total (validateQueries w ff queryFiles) = length (Results (validateQueries w ff queryFiles)))"
  using validateQueries_counts(5) [of ff w queryFiles]
  by (auto simp add: validateQueries_counts(1,2,3,4) length_filter_passed_failed)

theorem C4_summary_invariant_witness:
  "ValidationSummary.Passed (validateQueries demo_world False [''bad.graphql'', ''ok.graphql''])
       + Failed (validateQueries demo_world False [''bad.graphql'', ''ok.graphql''])
     = length (Results (validateQueries demo_world False [''bad.graphql'', ''ok.graphql'']))
   \<and> Total (validateQueries demo_world False [''bad.graphql'', ''ok.graphql''])
     = length (Results (validateQueries demo_world False [''bad.graphql'', ''ok.graphql'']))
   \<and> Total (validateQueries demo_world False [''bad.graphql'', ''ok.graphql'']) = 2"
  using C4_summary_invariant [of demo_world False "[''bad.graphql'', ''ok.graphql'']"]
  by simp

section \<open>Claims about the exit status\<close>

lemma exitCode_loop_failed:
  "exitCode_loop 0 results = (if filter (\<lambda>r. \<not> main_Passed r) results = [] then 0 else 1)"
  by (induction results) simp_all

lemma Execute_failedError:
  "Execute (failedError s) = (if Failed s = 0 then 0 else 1)"
  by (simp add: Execute_def failedError_def)

text \<open>
  C6. The exit status after validation is 0 when no result failed and 1 when one or more
  failed: for the loop of \<^verbatim>\<open>main\<close> over any list of results, for \<^verbatim>\<open>Execute\<close> on the
  error that \<^verbatim>\<open>runValidate\<close> makes from any summary of \<^verbatim>\<open>validateQueries\<close>, and for
  \<^verbatim>\<open>runValidate\<close> as a whole once the set-up has succeeded and the query files are found
  (the files of the query directory, or the one file named by the flag).
\<close>

theorem C6_exit_status_of_validation:
  "exitCode_loop 0 results = (if filter (\<lambda>r. \<not> main_Passed r) results = [] then 0 else 1)
   \<and> Execute (failedError (validateQueries w ff queryFiles))
       = (if filter (\<lambda>r. \<not> TestResult.Passed r) (Results (validateQueries w ff queryFiles)) = []
          then 0 else 1)
   \<and> (LoadConfig w (cfgFile fl) = Inr config \<and> Validate config = None \<and>
      initializeGraphJin w config = None \<and>
      (queryFile fl = [] \<and> findQueryFiles w (queriesDir fl) = Inr queryFiles \<or>
       queryFile fl \<noteq> [] \<and> \<not> os_IsNotExist w (queryFile fl) \<and> queryFiles = [queryFile fl])
      \<longrightarrow> Execute (runValidate w fl)
          = (if filter (\<lambda>r. \<not> TestResult.Passed r)
                  (Results (validateQueries w (failFast fl) queryFiles)) = []
             then 0 else 1))"
proof (intro conjI impI)
  show "exitCode_loop 0 results = (if filter (\<lambda>r. \<not> main_Passed r) results = [] then 0 else 1)"
    by (rule exitCode_loop_failed)
next
  show "Execute (failedError (validateQueries w ff queryFiles))
       = (if filter (\<lambda>r. \<not> TestResult.Passed r) (Results (validateQueries w ff queryFiles)) = []
          then 0 else 1)"
    by (simp add: Execute_failedError validateQueries_counts(2))
next
  assume h: "LoadConfig w (cfgFile fl) = Inr config \<and> Validate config = None \<and>
      initializeGraphJin w config = None \<and>
      (queryFile fl = [] \<and> findQueryFiles w (queriesDir fl) = Inr queryFiles \<or>
       queryFile fl \<noteq> [] \<and> \<not> os_IsNotExist w (queryFile fl) \<and> queryFiles = [queryFile fl])"
  show "Execute (runValidate w fl)
          = (if filter (\<lambda>r. \<not> TestResult.Passed r)
                  (Results (validateQueries w (failFast fl) queryFiles)) = []
             then 0 else 1)"
  proof (cases "queryFiles = []")
    case True
    then show ?thesis
      using h by (auto simp add: runValidate_def Execute_def validateQueries_def)
  next
    case False
    then have "runValidate w fl = failedError (validateQueries w (failFast fl) queryFiles)"
      using h by (auto simp add: runValidate_def)
    then show ?thesis
      by (simp add: Execute_failedError validateQueries_counts(2))
  qed
qed

theorem C6_exit_status_of_validation_witness:
  "LoadConfig demo_world (cfgFile demo_flags) = Inr demo_config \<and> Validate demo_config = None \<and>
   initializeGraphJin demo_world demo_config = None \<and> queryFile demo_flags = [] \<and>
   findQueryFiles demo_world (queriesDir demo_flags) = Inr [''bad.graphql'', ''ok.graphql''] \<and>
   filter (\<lambda>r. \<not> TestResult.Passed r)
     (Results (validateQueries demo_world (failFast demo_flags) [''bad.graphql'', ''ok.graphql'']))
     \<noteq> [] \<and>
   Execute (runValidate demo_world demo_flags) = 1"
proof -
  have ready: "LoadConfig demo_world (cfgFile demo_flags) = Inr demo_config"
    "Validate demo_config = None" "initializeGraphJin demo_world demo_config = None"
    "queryFile demo_flags = []"
    "findQueryFiles demo_world (queriesDir demo_flags) = Inr [''bad.graphql'', ''ok.graphql'']"
    by (simp_all add: demo_world_def demo_flags_def demo_config_def Validate_def
        initializeGraphJin_def)
  have failed: "filter (\<lambda>r. \<not> TestResult.Passed r)
     (Results (validateQueries demo_world (failFast demo_flags) [''bad.graphql'', ''ok.graphql'']))
     \<noteq> []"
    by (simp add: demo_world_def demo_flags_def validateQueries_def validateSingleQuery_def
        trimSuffix_def)
  show ?thesis
    using C6_exit_status_of_validation
      [where w = demo_world and fl = demo_flags and config = demo_config
         and queryFiles = "[''bad.graphql'', ''ok.graphql'']" and results = "[]"
         and ff = True]
      ready failed
    by auto
qed

text \<open>
  C7, as stated, fails: a configuration that cannot be loaded ends the process with status
  1, the status of a run in which a query failed validation.
\<close>

theorem C7_setup_failure_status_counterexample:
  "Execute (runValidate (demo_world\<lparr>LoadConfig := (\<lambda>path. Inl ''could not read config file'')\<rparr>)
      demo_flags) = 1
   \<and> Execute (runValidate demo_world demo_flags) = 1
   \<and> runValidate demo_world demo_flags = Some ''1 validation(s) failed''"
  by (simp add: runValidate_def Execute_def failedError_def demo_world_def demo_flags_def
      demo_config_def Validate_def initializeGraphJin_def validateQueries_def
      validateSingleQuery_def trimSuffix_def fmtD.simps digit_def)

text \<open>
  C7, amended. When the configuration cannot be loaded or is invalid, or the database or
  GraphJin cannot be set up, the process ends with the status 1, before any query is run:
  the status that a failed validation gives. This holds for \<^verbatim>\<open>Execute\<close> on
  \<^verbatim>\<open>runValidate\<close> and for \<^verbatim>\<open>main\<close>.
\<close>

theorem C7_setup_failure_status:
  "((case LoadConfig w (cfgFile fl) of
       Inl err \<Rightarrow> True
     | Inr config \<Rightarrow> Validate config \<noteq> None \<or> initializeGraphJin w config \<noteq> None)
    \<longrightarrow> Execute (runValidate w fl) = 1)
   \<and> main_exit (Inl err) initializeGraphJin_r findQueryFiles_r testQueries = 1
   \<and> main_exit (Inr c) (Some err) findQueryFiles_r testQueries = 1
   \<and> (Failed s > 0 \<longrightarrow> Execute (failedError s) = 1)"
  by (auto simp add: runValidate_def Execute_def main_exit_def log_Fatalf_def failedError_def
      split: sum.splits option.splits)

theorem C7_setup_failure_status_witness:
  "initializeGraphJin (demo_world\<lparr>db_Ping := (\<lambda>config. Some ''connection refused'')\<rparr>) demo_config
     \<noteq> None
   \<and> Execute (runValidate (demo_world\<lparr>db_Ping := (\<lambda>config. Some ''connection refused'')\<rparr>) demo_flags)
     = 1
   \<and> Failed (validateQueries demo_world True [''bad.graphql'', ''ok.graphql'']) > 0
   \<and> Execute (failedError (validateQueries demo_world True [''bad.graphql'', ''ok.graphql''])) = 1"
proof -
  let ?w = "demo_world\<lparr>db_Ping := (\<lambda>config. Some ''connection refused'')\<rparr>"
  have load: "LoadConfig ?w (cfgFile demo_flags) = Inr demo_config"
    by (simp add: demo_world_def)
  have init: "initializeGraphJin ?w demo_config \<noteq> None"
    by (simp add: demo_world_def initializeGraphJin_def)
  have failed: "Failed (validateQueries demo_world True [''bad.graphql'', ''ok.graphql'']) > 0"
    by (simp add: demo_world_def validateQueries_def validateSingleQuery_def trimSuffix_def)
  show ?thesis
    using C7_setup_failure_status
      [where w = ?w and fl = demo_flags
         and s = "validateQueries demo_world True [''bad.graphql'', ''ok.graphql'']"
         and err = "[]" and initializeGraphJin_r = None and findQueryFiles_r = "Inr []"
         and testQueries = "\<lambda>files. []" and c = "()"]
      load init failed
    by auto
qed

section \<open>The two scanners compared\<close>

lemma errorsKey_finding_cases:
  "errorsKey fmtV v [] path \<noteq> [] \<Longrightarrow> \<exists>errArray. map_of v ''errors'' = Some (JArray errArray)"
  by (auto simp: errorsKey_def split: option.splits json.splits)

lemma errorKey_finding_cases:
  "errorKey v [] path \<noteq> [] \<Longrightarrow>
   (\<exists>errStr. errStr \<noteq> [] \<and> map_of v ''error'' = Some (JString errStr)) \<or>
   (\<exists>errMap. map_of v ''error'' = Some (JObject errMap))"
  by (auto simp: errorKey_def split: option.splits json.splits if_splits)

lemma collectErrors_finding_checkForErrors:
  fixes errors :: "string list"
  shows "collectErrors fmtV v [] path \<noteq> [] \<longrightarrow> checkForErrors v"
    and "collectErrors_fields fmtV kvs [] path \<noteq> [] \<longrightarrow> checkForErrors_fields kvs"
    and "collectErrors_items fmtV i xs [] path \<noteq> [] \<longrightarrow> checkForErrors_items xs"
proof (induction fmtV v errors path and fmtV kvs errors path and fmtV i xs errors path
    rule: collectErrors_collectErrors_fields_collectErrors_items.induct)
  case (1 fmtV v errors path)
  show ?case
  proof
    assume "collectErrors fmtV (JObject v) [] path \<noteq> []"
    then consider (errors) "errorsKey fmtV v [] path \<noteq> []"
      | (error) "errorKey v [] path \<noteq> []"
      | (fields) "collectErrors_fields fmtV v [] path \<noteq> []"
      unfolding collectErrors_JObject_parts [of fmtV v "[]" path] by auto
    then show "checkForErrors (JObject v)"
    proof cases
      case errors
      from errorsKey_finding_cases [OF this] show ?thesis by auto
    next
      case error
      from errorKey_finding_cases [OF this] show ?thesis by auto
    next
      case fields
      with 1 show ?thesis by simp
    qed
  qed
next
  case (2 fmtV v errors path)
  then show ?case by simp
next
  case (8 fmtV key val rest errors path)
  have "collectErrors_fields fmtV ((key, val) # rest) [] path =
        collectErrors fmtV val [] (newPath_key path key) @ collectErrors_fields fmtV rest [] path"
    using collectErrors_fields_append [of fmtV rest "collectErrors fmtV val [] (newPath_key path key)" path]
    by simp
  with 8 show ?case by auto
next
  case (10 fmtV i item rest errors path)
  have "collectErrors_items fmtV i (item # rest) [] path =
        collectErrors fmtV item [] (newPath_index path i) @ collectErrors_items fmtV (Suc i) rest [] path"
    using collectErrors_items_append [of fmtV "Suc i" rest "collectErrors fmtV item [] (newPath_index path i)" path]
    by simp
  with 10 show ?case by auto
qed simp_all

text \<open>
  C9, as stated, fails in both directions. An empty \<^verbatim>\<open>"errors"\<close> sequence makes
  \<^verbatim>\<open>hasNestedErrors\<close> true and gives \<^verbatim>\<open>findNestedErrors\<close> nothing to report; a payload
  that is a sequence cannot be decoded into the map of \<^verbatim>\<open>hasNestedErrors\<close>, which is then
  false, while \<^verbatim>\<open>findNestedErrors\<close> walks it.
\<close>

theorem C9_scanners_disagree_counterexample:
  \<open>hasNestedErrors
      (\<lambda>data. if data = ''{"errors":[]}'' then Some (JObject [(''errors'', JArray [])]) else None)
      ''{"errors":[]}''
   \<and> findNestedErrors
      (\<lambda>data. if data = ''{"errors":[]}'' then Some (JObject [(''errors'', JArray [])]) else None)
      (\<lambda>e. ''map[]'') ''{"errors":[]}'' = []
   \<and> \<not> hasNestedErrors
      (\<lambda>data. if data = ''[{"error":"x"}]'' then Some (JArray [JObject [(''error'', JString ''x'')]])
              else None)
      ''[{"error":"x"}]''
   \<and> findNestedErrors
      (\<lambda>data. if data = ''[{"error":"x"}]'' then Some (JArray [JObject [(''error'', JString ''x'')]])
              else None)
      (\<lambda>e. ''map[]'') ''[{"error":"x"}]'' = [''Error at [0]: x'']\<close>
  by (simp add: hasNestedErrors_def unmarshalMap_def findNestedErrors_def errorsKey_def errorKey_def
      newPath_key_def newPath_index_def location_def fmtD.simps digit_def)

text \<open>
  C9, amended. For a payload that decodes to a JSON object, \<^verbatim>\<open>hasNestedErrors\<close> is true
  whenever \<^verbatim>\<open>findNestedErrors\<close> returns a message; for a payload that decodes to anything
  but an object, or does not decode, \<^verbatim>\<open>hasNestedErrors\<close> is false.
\<close>

theorem C9_findings_imply_flag:
  "(unmarshal data = Some (JObject m) \<and> findNestedErrors unmarshal fmtV data \<noteq> []
    \<longrightarrow> hasNestedErrors unmarshal data)
   \<and> ((\<forall>m. unmarshal data \<noteq> Some (JObject m)) \<longrightarrow> \<not> hasNestedErrors unmarshal data)"
proof (intro conjI impI)
  assume h: "unmarshal data = Some (JObject m) \<and> findNestedErrors unmarshal fmtV data \<noteq> []"
  then have "data \<noteq> []" and "collectErrors fmtV (JObject m) [] [] \<noteq> []"
    by (auto simp: findNestedErrors_def split: if_splits)
  then show "hasNestedErrors unmarshal data"
    using h collectErrors_finding_checkForErrors(1) [of fmtV "JObject m" "[]"]
    by (simp add: hasNestedErrors_def unmarshalMap_def)
next
  assume "\<forall>m. unmarshal data \<noteq> Some (JObject m)"
  then show "\<not> hasNestedErrors unmarshal data"
    by (auto simp: hasNestedErrors_def unmarshalMap_def split: option.splits json.splits)
qed

theorem C9_findings_imply_flag_witness:
  \<open>(\<lambda>data. if data = ''{"posts":[{"title":"A"},{"error":"no access"}]}''
            then Some (JObject [(''posts'', JArray [JObject [(''title'', JString ''A'')],
                                                    JObject [(''error'', JString ''no access'')]])])
            else None)
     ''{"posts":[{"title":"A"},{"error":"no access"}]}''
     = Some (JObject [(''posts'', JArray [JObject [(''title'', JString ''A'')],
                                          JObject [(''error'', JString ''no access'')]])])
   \<and> findNestedErrors
       (\<lambda>data. if data = ''{"posts":[{"title":"A"},{"error":"no access"}]}''
            then Some (JObject [(''posts'', JArray [JObject [(''title'', JString ''A'')],
                                                    JObject [(''error'', JString ''no access'')]])])
            else None)
       (\<lambda>e. ''map[]'') ''{"posts":[{"title":"A"},{"error":"no access"}]}''
     = [''Error at posts[1]: no access'']
   \<and> hasNestedErrors
       (\<lambda>data. if data = ''{"posts":[{"title":"A"},{"error":"no access"}]}''
            then Some (JObject [(''posts'', JArray [JObject [(''title'', JString ''A'')],
                                                    JObject [(''error'', JString ''no access'')]])])
            else None)
       ''{"posts":[{"title":"A"},{"error":"no access"}]}''
   \<and> \<not> hasNestedErrors (\<lambda>data. Some (JArray [])) ''[]''\<close>
proof -
  let ?u = \<open>\<lambda>data. if data = ''{"posts":[{"title":"A"},{"error":"no access"}]}''
            then Some (JObject [(''posts'', JArray [JObject [(''title'', JString ''A'')],
                                                    JObject [(''error'', JString ''no access'')]])])
            else None\<close>
  let ?d = \<open>''{"posts":[{"title":"A"},{"error":"no access"}]}''\<close>
  have found: "findNestedErrors ?u (\<lambda>e. ''map[]'') ?d = [''Error at posts[1]: no access'']"
    by (simp add: findNestedErrors_def errorsKey_def errorKey_def newPath_key_def newPath_index_def
        location_def fmtD.simps digit_def)
  have "hasNestedErrors ?u ?d"
    using C9_findings_imply_flag
      [where unmarshal = ?u and data = ?d and fmtV = "\<lambda>e. ''map[]''"
         and m = "[(''posts'', JArray [JObject [(''title'', JString ''A'')],
                                        JObject [(''error'', JString ''no access'')]])]"]
      found
    by simp
  moreover have "\<not> hasNestedErrors (\<lambda>data. Some (JArray [])) ''[]''"
    using C9_findings_imply_flag [where unmarshal = "\<lambda>data. Some (JArray [])" and data = "''[]''"]
    by simp
  ultimately show ?thesis using found by simp
qed

section \<open>The visiting order of maps\<close>

lemma map_of_insort_key_fst:
  "map_of (insort_key fst (k, v) ys) = (map_of ys)(k \<mapsto> v)"
proof (induction ys)
  case Nil
  show ?case by simp
next
  case (Cons y ys)
  obtain k' v' where y: "y = (k', v')" by (cases y)
  show ?case
  proof (cases "k \<le> k'")
    case True
    then show ?thesis by (simp add: y fun_eq_iff)
  next
    case False
    then have "k' \<noteq> k" by auto
    then show ?thesis
      using False Cons.IH by (auto simp add: y fun_eq_iff)
  qed
qed

lemma map_of_sort_key_fst: "map_of (sort_key fst kvs) = map_of kvs"
proof (induction kvs)
  case Nil
  show ?case by simp
next
  case (Cons kv kvs)
  obtain k v where kv: "kv = (k, v)" by (cases kv)
  show ?case by (simp add: kv map_of_insort_key_fst Cons.IH)
qed

lemma map_of_canon_fields: "map_of (canon_fields kvs) k = map_option canon (map_of kvs k)"
proof (induction kvs)
  case Nil
  show ?case by simp
next
  case (Cons kv kvs)
  obtain k' v where kv: "kv = (k', v)" by (cases kv)
  show ?case by (simp add: kv Cons.IH)
qed

lemma map_of_canon_JObject:
  "map_of (sort_key fst (canon_fields kvs)) k = map_option canon (map_of kvs k)"
  by (simp add: map_of_sort_key_fst map_of_canon_fields)

lemma canon_JString_iff: "canon v = JString s \<longleftrightarrow> v = JString s"
  by (cases v) auto

lemma case_message_canon:
  "(case map_option canon x of Some (JString msg) \<Rightarrow> f msg | _ \<Rightarrow> g)
     = (case x of Some (JString msg) \<Rightarrow> f msg | _ \<Rightarrow> g)"
proof (cases x)
  case None
  then show ?thesis by simp
next
  case (Some v)
  then show ?thesis by (cases v) simp_all
qed

lemma errorsLoop_canon_items:
  assumes fmt: "\<And>e. fmtV (canon e) = fmtV e"
  shows "errorsLoop fmtV path i (canon_items es) errors = errorsLoop fmtV path i es errors"
proof (induction es arbitrary: i errors)
  case Nil
  show ?case by simp
next
  case (Cons e es)
  show ?case
  proof (cases e)
    case (JObject errMap)
    have "fmtV (JObject (sort_key fst (canon_fields errMap))) = fmtV (JObject errMap)"
      using fmt [of "JObject errMap"] by simp
    then show ?thesis
      unfolding JObject
      by (simp only: canon_items.simps canon.simps errorsLoop.simps json.case
          map_of_canon_JObject case_message_canon Cons.IH)
  qed (simp_all add: Cons.IH)
qed

lemma errorsKey_canon:
  assumes fmt: "\<And>e. fmtV (canon e) = fmtV e"
  shows "errorsKey fmtV (sort_key fst (canon_fields v)) errors path = errorsKey fmtV v errors path"
proof (cases "map_of v ''errors''")
  case None
  then show ?thesis by (simp add: errorsKey_def map_of_canon_JObject)
next
  case (Some errs)
  show ?thesis
  proof (cases errs)
    case (JArray errArray)
    have "length (canon_items errArray) = length errArray"
      by (induction errArray) simp_all
    then show ?thesis
      using Some JArray errorsLoop_canon_items [of fmtV path 0 errArray errors, OF fmt]
      by (simp add: errorsKey_def map_of_canon_JObject)
  qed (simp_all add: errorsKey_def map_of_canon_JObject Some)
qed

lemma errorKey_canon:
  "errorKey (sort_key fst (canon_fields v)) errors path = errorKey v errors path"
proof (cases "map_of v ''error''")
  case None
  then show ?thesis by (simp add: errorKey_def map_of_canon_JObject)
next
  case (Some errVal)
  show ?thesis
    unfolding errorKey_def map_of_canon_JObject Some
    by (cases errVal)
      (simp_all only: option.map option.case canon.simps json.case map_of_canon_JObject
        case_message_canon)
qed

lemma mset_collectErrors_fields:
  "mset (collectErrors_fields fmtV kvs [] path)
     = (\<Sum>kv\<in>#mset kvs. mset (collectErrors fmtV (snd kv) [] (newPath_key path (fst kv))))"
proof (induction kvs)
  case Nil
  show ?case by simp
next
  case (Cons kv kvs)
  obtain k v where kv: "kv = (k, v)" by (cases kv)
  have "collectErrors_fields fmtV (kv # kvs) [] path
      = collectErrors fmtV v [] (newPath_key path k) @ collectErrors_fields fmtV kvs [] path"
    using collectErrors_fields_append [of fmtV kvs "collectErrors fmtV v [] (newPath_key path k)" path]
    by (simp add: kv)
  then show ?case by (simp add: kv Cons.IH)
qed

lemma mset_collectErrors_fields_sort:
  "mset (collectErrors_fields fmtV (sort_key fst kvs) [] path)
     = mset (collectErrors_fields fmtV kvs [] path)"
  by (simp add: mset_collectErrors_fields)

lemma mset_collectErrors_canon:
  fixes errors :: "string list"
  shows "(\<forall>e. fmtV (canon e) = fmtV e) \<longrightarrow>
      mset (collectErrors fmtV (canon v) [] path) = mset (collectErrors fmtV v [] path)"
    and "(\<forall>e. fmtV (canon e) = fmtV e) \<longrightarrow>
      mset (collectErrors_fields fmtV (canon_fields kvs) [] path)
        = mset (collectErrors_fields fmtV kvs [] path)"
    and "(\<forall>e. fmtV (canon e) = fmtV e) \<longrightarrow>
      mset (collectErrors_items fmtV i (canon_items xs) [] path)
        = mset (collectErrors_items fmtV i xs [] path)"
proof (induction fmtV v errors path and fmtV kvs errors path and fmtV i xs errors path
    rule: collectErrors_collectErrors_fields_collectErrors_items.induct)
  case (1 fmtV v errors path)
  show ?case
  proof
    assume fmt: "\<forall>e. fmtV (canon e) = fmtV e"
    let ?sorted = "sort_key fst (canon_fields v)"
    have "mset (collectErrors_fields fmtV ?sorted [] path) = mset (collectErrors_fields fmtV v [] path)"
      using 1 fmt by (simp add: mset_collectErrors_fields_sort)
    moreover have "errorsKey fmtV ?sorted [] path = errorsKey fmtV v [] path"
      using fmt by (intro errorsKey_canon) simp
    moreover have "errorKey ?sorted [] path = errorKey v [] path"
      by (rule errorKey_canon)
    ultimately show "mset (collectErrors fmtV (canon (JObject v)) [] path)
        = mset (collectErrors fmtV (JObject v) [] path)"
      by (simp add: collectErrors_JObject_parts del: collectErrors.simps)
  qed
next
  case (2 fmtV v errors path)
  then show ?case by simp
next
  case (8 fmtV key val rest errors path)
  show ?case
  proof
    assume fmt: "\<forall>e. fmtV (canon e) = fmtV e"
    have unroll: "collectErrors_fields fmtV ((k, x) # ys) [] path
        = collectErrors fmtV x [] (newPath_key path k) @ collectErrors_fields fmtV ys [] path"
      for k x ys
      using collectErrors_fields_append [of fmtV ys "collectErrors fmtV x [] (newPath_key path k)" path]
      by simp
    show "mset (collectErrors_fields fmtV (canon_fields ((key, val) # rest)) [] path)
        = mset (collectErrors_fields fmtV ((key, val) # rest) [] path)"
      using 8 fmt by (simp add: unroll del: collectErrors_fields.simps)
  qed
next
  case (10 fmtV i item rest errors path)
  show ?case
  proof
    assume fmt: "\<forall>e. fmtV (canon e) = fmtV e"
    have unroll: "collectErrors_items fmtV i (x # ys) [] path
        = collectErrors fmtV x [] (newPath_index path i) @ collectErrors_items fmtV (Suc i) ys [] path"
      for x ys
      using collectErrors_items_append [of fmtV "Suc i" ys "collectErrors fmtV x [] (newPath_index path i)" path]
      by simp
    show "mset (collectErrors_items fmtV i (canon_items (item # rest)) [] path)
        = mset (collectErrors_items fmtV i (item # rest) [] path)"
      using 10 fmt by (simp add: unroll del: collectErrors_items.simps)
  qed
qed simp_all

text \<open>
  C8, as stated, fails: the order of the findings follows the order in which \<^verbatim>\<open>range\<close>
  visits the keys of a map, which Go does not fix. The map
  \<^verbatim>\<open>{"a": {"error": "x"}, "b": {"error": "y"}}\<close>, visited from \<^verbatim>\<open>a\<close> and visited from
  \<^verbatim>\<open>b\<close>, gives two different lists.
\<close>

theorem C8_visiting_order_counterexample:
  "canon (JObject [(''a'', JObject [(''error'', JString ''x'')]),
                   (''b'', JObject [(''error'', JString ''y'')])])
     = canon (JObject [(''b'', JObject [(''error'', JString ''y'')]),
                       (''a'', JObject [(''error'', JString ''x'')])])
   \<and> collectErrors (\<lambda>e. ''map[]'')
        (JObject [(''a'', JObject [(''error'', JString ''x'')]),
                  (''b'', JObject [(''error'', JString ''y'')])]) [] []
     = [''Error at a: x'', ''Error at b: y'']
   \<and> collectErrors (\<lambda>e. ''map[]'')
        (JObject [(''b'', JObject [(''error'', JString ''y'')]),
                  (''a'', JObject [(''error'', JString ''x'')])]) [] []
     = [''Error at b: y'', ''Error at a: x'']"
  by (simp add: less_eq_char_def errorsKey_def errorKey_def newPath_key_def location_def)

text \<open>
  C8, amended. Two runs of \<^verbatim>\<open>collectErrors\<close> on one decoded value, whatever the orders
  in which they visit its maps, produce the same findings, each as often in one run as in
  the other; only their order in the list can differ. (The rendering \<^verbatim>\<open>%v\<close> of a value
  is taken not to depend on the visiting order: Go prints a map by ascending key.)
\<close>

theorem C8_findings_up_to_order:
  "canon a = canon b \<and> (\<forall>e. fmtV (canon e) = fmtV e)
   \<longrightarrow> mset (collectErrors fmtV a errors path) = mset (collectErrors fmtV b errors path)"
proof
  assume h: "canon a = canon b \<and> (\<forall>e. fmtV (canon e) = fmtV e)"
  have "mset (collectErrors fmtV v [] path) = mset (collectErrors fmtV (canon v) [] path)" for v
    using h mset_collectErrors_canon(1) [of fmtV v path] by simp
  from this [of a] this [of b] h
  have "mset (collectErrors fmtV a [] path) = mset (collectErrors fmtV b [] path)"
    by simp
  then show "mset (collectErrors fmtV a errors path) = mset (collectErrors fmtV b errors path)"
    using collectErrors_append [of fmtV a errors path] collectErrors_append [of fmtV b errors path]
    by simp
qed

theorem C8_findings_up_to_order_witness:
  "canon (JObject [(''a'', JObject [(''error'', JString ''x'')]),
                   (''errors'', JArray [JObject []])])
     = canon (JObject [(''errors'', JArray [JObject []]),
                       (''a'', JObject [(''error'', JString ''x'')])])
   \<and> mset (collectErrors (\<lambda>e. ''map[]'')
        (JObject [(''a'', JObject [(''error'', JString ''x'')]),
                  (''errors'', JArray [JObject []])]) [] ''data'')
     = mset (collectErrors (\<lambda>e. ''map[]'')
        (JObject [(''errors'', JArray [JObject []]),
                  (''a'', JObject [(''error'', JString ''x'')])]) [] ''data'')
   \<and> collectErrors (\<lambda>e. ''map[]'')
        (JObject [(''errors'', JArray [JObject []]),
                  (''a'', JObject [(''error'', JString ''x'')])]) [] ''data''
     = [''Error at data[0]: map[]'', ''Error at data.a: x'']"
proof -
  let ?a = "JObject [(''a'', JObject [(''error'', JString ''x'')]), (''errors'', JArray [JObject []])]"
  let ?b = "JObject [(''errors'', JArray [JObject []]), (''a'', JObject [(''error'', JString ''x'')])]"
  have same: "canon ?a = canon ?b"
    by (simp add: less_eq_char_def)
  have run: "collectErrors (\<lambda>e. ''map[]'') ?b [] ''data''
      = [''Error at data[0]: map[]'', ''Error at data.a: x'']"
    by (simp add: errorsKey_def errorKey_def newPath_key_def newPath_index_def location_def
        fmtD.simps digit_def)
  show ?thesis
    using C8_findings_up_to_order
      [where a = ?a and b = ?b and fmtV = "\<lambda>e. ''map[]''" and errors = "[]" and path = "''data''"]
      same run
    by simp
qed

end
